theory Spec2Isabelle
  imports Complex_Main "HOL-Library.Word" "HOL-Library.Multiset" "HOL-Library.Sublist"
begin

section \<open>JavaScript values used by App.jsx\<close>

text \<open>
  A JavaScript string is a sequence of UTF-16 code units. An array whose slots may hold
  \<^verbatim>\<open>undefined\<close> is a list of options, \<open>None\<close> standing for \<^verbatim>\<open>undefined\<close>
  (a hole of a sparse array reads as \<^verbatim>\<open>undefined\<close> too, so holes are \<open>None\<close> as well).
  The session queues of the application are such arrays of card indices.
\<close>

type_synonym jsstring = "16 word list"

definition js :: "string \<Rightarrow> jsstring" where
  "js s = map of_char s"

text \<open>\<^verbatim>\<open>a[i]\<close>: reading past the end yields \<^verbatim>\<open>undefined\<close>.\<close>

definition js_get :: "'a option list \<Rightarrow> nat \<Rightarrow> 'a option" where
  "js_get a i = (if i < length a then a ! i else None)"

text \<open>\<^verbatim>\<open>a[i] = v\<close>: writing past the end extends the array, the slots between being holes.\<close>

definition js_set :: "'a option list \<Rightarrow> nat \<Rightarrow> 'a option \<Rightarrow> 'a option list" where
  "js_set a i v =
     (if i < length a then a[i := v] else a @ replicate (i - length a) None @ [v])"

text \<open>
  \<^verbatim>\<open>a.splice(start, deleteCount, ...items)\<close> for non-negative arguments: \<open>start\<close> is
  clamped to the length, \<open>deleteCount\<close> to what is left after \<open>start\<close>. The result is the
  pair of the removed elements (the value \<^verbatim>\<open>splice\<close> returns) and the array afterwards.
\<close>

definition js_splice :: "'a list \<Rightarrow> nat \<Rightarrow> nat \<Rightarrow> 'a list \<Rightarrow> 'a list \<times> 'a list" where
  "js_splice a start deleteCount items =
     (let st = min start (length a);
          dc = min deleteCount (length a - st)
      in (take dc (drop st a), take st a @ items @ drop (st + dc) a))"

text \<open>\<^verbatim>\<open>const [cur] = removed\<close>: the first element, \<^verbatim>\<open>undefined\<close> when there is none.\<close>

definition first_of :: "'a option list \<Rightarrow> 'a option" where
  "first_of removed = (case removed of [] \<Rightarrow> None | x # _ \<Rightarrow> x)"

text \<open>
  \<^verbatim>\<open>const clamp = (n, min, max) => Math.max(min, Math.min(max, n))\<close>. Its only call
  has natural-number arguments.
\<close>

definition clamp :: "nat \<Rightarrow> nat \<Rightarrow> nat \<Rightarrow> nat" where
  "clamp n lo hi = max lo (min hi n)"

section \<open>shuffleArray\<close>

text \<open>
  \<^verbatim>\<open>
  function shuffleArray(arr) {
    const a = arr.slice();
    for (let i = a.length - 1; i > 0; i--) {
      const j = Math.floor(Math.random() * (i + 1));
      [a[i], a[j]] = [a[j], a[i]];
    }
    return a;
  }
  \<close>
  The random source is a parameter: \<open>rnd i\<close> is the number \<^verbatim>\<open>Math.random()\<close> returns in
  the iteration with loop index \<open>i\<close> (each index occurs once in a call). \<^verbatim>\<open>Math.random()\<close>
  returns a number in the half-open interval from 0 to 1; the theorems below assume that
  of \<open>rnd\<close>. The loop index starts at \<^verbatim>\<open>a.length - 1\<close>, which is -1 for the empty array;
  the loop does not run for -1 nor for 0, so the truncated subtraction of \<open>nat\<close> gives the
  same result.
\<close>

definition random_index :: "(nat \<Rightarrow> real) \<Rightarrow> nat \<Rightarrow> nat" where
  "random_index rnd i = nat \<lfloor>rnd i * real (i + 1)\<rfloor>"

text \<open>
  \<^verbatim>\<open>[a[i], a[j]] = [a[j], a[i]]\<close>: the right-hand side is read first, then \<^verbatim>\<open>a[i]\<close>
  and \<^verbatim>\<open>a[j]\<close> are written in this order.
\<close>

definition swap_entries :: "'a option list \<Rightarrow> nat \<Rightarrow> nat \<Rightarrow> 'a option list" where
  "swap_entries a i j =
     (let x = js_get a j; y = js_get a i
      in js_set (js_set a i x) j y)"

fun shuffle_loop :: "(nat \<Rightarrow> real) \<Rightarrow> nat \<Rightarrow> 'a option list \<Rightarrow> 'a option list" where
  "shuffle_loop rnd 0 a = a"
| "shuffle_loop rnd (Suc k) a =
     shuffle_loop rnd k (swap_entries a (Suc k) (random_index rnd (Suc k)))"

definition shuffleArray :: "(nat \<Rightarrow> real) \<Rightarrow> 'a option list \<Rightarrow> 'a option list" where
  "shuffleArray rnd arr = shuffle_loop rnd (length arr - 1) arr"

text \<open>\<^verbatim>\<open>cards.map((_, i) => i)\<close>: the indices of an array of \<open>n\<close> cards.\<close>

definition indices :: "nat \<Rightarrow> nat option list" where
  "indices n = map Some [0..<n]"

text \<open>
  The description of the algorithm in the specification, for comparison with the loop:
  for each index from the last one down to 1, swap the element there with the element at
  the drawn position.
\<close>

definition fisher_yates_spec :: "(nat \<Rightarrow> nat) \<Rightarrow> 'a option list \<Rightarrow> 'a option list" where
  "fisher_yates_spec pick a =
     foldl (\<lambda>b i. b[i := b ! pick i, pick i := b ! i]) a (rev [1..<length a])"

section \<open>Data model\<close>

text \<open>
  \<^verbatim>\<open>
  /** @typedef {{ id:string, front:string, back?:string, hint?:string }} Card */
  /** @typedef {{ id:string, name:string, cards:Card[] }} Deck */
  \<close>
\<close>

text \<open>The field \<^verbatim>\<open>back\<close> is \<open>card_back\<close> here, \<^verbatim>\<open>id\<close> is \<open>card_id\<close> and \<open>deck_id\<close>.\<close>

record card =
  card_id :: jsstring
  front :: jsstring
  card_back :: "jsstring option"
  hint :: "jsstring option"

record deck =
  deck_id :: jsstring
  name :: jsstring
  cards :: "card list"

datatype screen = Home | Mode | Practice | Test | Results | Editor

text \<open>
  The two messages sent to a cast session:
  \<^verbatim>\<open>{ type: 'card', card, showBack, idx, total }\<close> and
  \<^verbatim>\<open>{ type: 'results', score: { correct, total } }\<close>.
\<close>

datatype cast_msg =
  CardMsg "card option" bool nat nat
| ResultsMsg nat nat

text \<open>The practice statistics \<^verbatim>\<open>{ seen, correct }\<close> and the test score
  \<^verbatim>\<open>{ correct, total }\<close>, whose fields are \<open>score_correct\<close> and \<open>score_total\<close> here.\<close>

record practice_stats =
  seen :: nat
  correct :: nat

record test_score =
  score_correct :: nat
  score_total :: nat

text \<open>
  The state of the \<^verbatim>\<open>App\<close> component: one field for each \<^verbatim>\<open>useState\<close> cell that
  the session and editor logic reads or writes (the display settings \<^verbatim>\<open>fontScale\<close>,
  \<^verbatim>\<open>uppercase\<close>, \<^verbatim>\<open>showHints\<close> and \<^verbatim>\<open>expandedCards\<close> are left out). \<open>sent\<close> is the
  list of messages passed to \<^verbatim>\<open>castSession.sendMessage\<close>, oldest first. \<open>isCasting\<close>
  stands for both \<^verbatim>\<open>isCasting\<close> and \<^verbatim>\<open>castSession\<close>: the one handler that writes
  them sets \<^verbatim>\<open>isCasting\<close> to \<^verbatim>\<open>!!session\<close>.
\<close>

record app_state =
  decks :: "deck list"
  screen :: screen
  activeDeckId :: "jsstring option"
  isCasting :: bool
  queue :: "nat option list"
  currentIdx :: nat
  showBack :: bool
  stats :: practice_stats
  testQueue :: "nat option list"
  testIdx :: nat
  testScore :: test_score
  draftDeck :: "deck option"
  isNewDeck :: bool
  sent :: "cast_msg list"

text \<open>The initial values of the \<^verbatim>\<open>useState\<close> cells; the decks come from local storage
  or are the starter decks.\<close>

definition initial_state :: "deck list \<Rightarrow> app_state" where
  "initial_state ds =
     \<lparr> decks = ds, screen = Home, activeDeckId = None, isCasting = False,
       queue = [], currentIdx = 0, showBack = False,
       stats = \<lparr> seen = 0, correct = 0 \<rparr>,
       testQueue = [], testIdx = 0,
       testScore = \<lparr> score_correct = 0, score_total = 0 \<rparr>,
       draftDeck = None, isNewDeck = False, sent = [] \<rparr>"

text \<open>\<^verbatim>\<open>decks.find((d) => d.id === activeDeckId) || null\<close>\<close>

definition activeDeck :: "app_state \<Rightarrow> deck option" where
  "activeDeck s =
     (case activeDeckId s of
        None \<Rightarrow> None
      | Some i \<Rightarrow> find (\<lambda>d. deck_id d = i) (decks s))"

text \<open>\<^verbatim>\<open>cards[k]\<close> where \<open>k\<close> is a queue entry: \<^verbatim>\<open>undefined\<close> for an entry that is
  \<^verbatim>\<open>undefined\<close> or past the end.\<close>

definition card_at :: "card list \<Rightarrow> nat option \<Rightarrow> card option" where
  "card_at cs k =
     (case k of
        None \<Rightarrow> None
      | Some i \<Rightarrow> if i < length cs then Some (cs ! i) else None)"

text \<open>\<^verbatim>\<open>activeDeck && queue.length ? activeDeck.cards[queue[currentIdx]] : null\<close>\<close>

definition currentCard :: "app_state \<Rightarrow> card option" where
  "currentCard s =
     (case activeDeck s of
        None \<Rightarrow> None
      | Some d \<Rightarrow>
          if length (queue s) = 0 then None
          else card_at (cards d) (js_get (queue s) (currentIdx s)))"

definition currentTestCard :: "app_state \<Rightarrow> card option" where
  "currentTestCard s =
     (case activeDeck s of
        None \<Rightarrow> None
      | Some d \<Rightarrow>
          if length (testQueue s) = 0 then None
          else card_at (cards d) (js_get (testQueue s) (testIdx s)))"

definition sendCastMessage :: "cast_msg \<Rightarrow> app_state \<Rightarrow> app_state" where
  "sendCastMessage m s = (if isCasting s then s\<lparr> sent := sent s @ [m] \<rparr> else s)"

section \<open>Practice mode\<close>

text \<open>
  The effect that starts a practice session; React runs it after a render in which
  \<^verbatim>\<open>screen\<close>, \<^verbatim>\<open>activeDeckId\<close> or \<^verbatim>\<open>isCasting\<close> changed.
\<close>

definition practiceEffect :: "(nat \<Rightarrow> real) \<Rightarrow> app_state \<Rightarrow> app_state" where
  "practiceEffect rnd s =
     (case activeDeck s of
        None \<Rightarrow> s
      | Some d \<Rightarrow>
          if screen s \<noteq> Practice then s
          else
            let shuffled = shuffleArray rnd (indices (length (cards d)));
                s' = s\<lparr> queue := shuffled, currentIdx := 0, showBack := False,
                        stats := \<lparr> seen = 0, correct = 0 \<rparr> \<rparr>
            in if isCasting s \<and> length (cards d) > 0
               then sendCastMessage
                      (CardMsg (card_at (cards d) (js_get shuffled 0)) False 1 (length shuffled)) s'
               else s')"

text \<open>\<^verbatim>\<open>const flip = () => setShowBack((b) => !b);\<close>\<close>

definition flip :: "app_state \<Rightarrow> app_state" where
  "flip s = s\<lparr> showBack := \<not> showBack s \<rparr>"

definition shuffleNow :: "(nat \<Rightarrow> real) \<Rightarrow> app_state \<Rightarrow> app_state" where
  "shuffleNow rnd s =
     (case activeDeck s of
        None \<Rightarrow> s
      | Some d \<Rightarrow>
          s\<lparr> queue := shuffleArray rnd (indices (length (cards d))),
             currentIdx := 0, showBack := False \<rparr>)"

text \<open>
  The queue that \<^verbatim>\<open>nextPractice\<close> builds (the local \<^verbatim>\<open>q\<close> after its branch):
  \<^verbatim>\<open>
  const q = [...queue];
  const [cur] = q.splice(currentIdx, 1);
  if (correct) { q.push(cur); }
  else { q.splice(clamp(currentIdx + 2, 0, q.length), 0, cur); }
  \<close>
\<close>

definition requeue :: "bool \<Rightarrow> nat \<Rightarrow> nat option list \<Rightarrow> nat option list" where
  "requeue c idx q0 =
     (let (removed, q) = js_splice q0 idx 1 [];
          cur = first_of removed
      in if c then q @ [cur]
         else snd (js_splice q (clamp (idx + 2) 0 (length q)) 0 [cur]))"

definition nextPractice :: "bool \<Rightarrow> app_state \<Rightarrow> app_state" where
  "nextPractice c s =
     (case activeDeck s of
        None \<Rightarrow> s
      | Some d \<Rightarrow>
          if length (queue s) = 0 then s
          else
            let q = requeue c (currentIdx s) (queue s);
                newIdx = (if currentIdx s \<ge> length q then 0 else currentIdx s);
                s' = s\<lparr> queue := q, currentIdx := newIdx, showBack := False,
                        stats := \<lparr> seen = seen (stats s) + 1,
                                   correct = correct (stats s) + (if c then 1 else 0) \<rparr> \<rparr>
            in if isCasting s \<and> length (cards d) > 0
               then sendCastMessage
                      (CardMsg (card_at (cards d) (js_get q newIdx)) False (newIdx + 1) (length q)) s'
               else s')"

text \<open>A run of practice answers, one call of \<^verbatim>\<open>nextPractice\<close> for each.\<close>

fun practiceRun :: "bool list \<Rightarrow> app_state \<Rightarrow> app_state" where
  "practiceRun [] s = s"
| "practiceRun (b # bs) s = practiceRun bs (nextPractice b s)"

text \<open>The queue entry under the cursor, \<^verbatim>\<open>queue[currentIdx]\<close>.\<close>

definition currentEntry :: "app_state \<Rightarrow> nat option" where
  "currentEntry s = js_get (queue s) (currentIdx s)"

section \<open>Test mode\<close>

definition startTest :: "(nat \<Rightarrow> real) \<Rightarrow> app_state \<Rightarrow> app_state" where
  "startTest rnd s =
     (case activeDeck s of
        None \<Rightarrow> s
      | Some d \<Rightarrow>
          let idxs = shuffleArray rnd (indices (length (cards d)));
              s' = s\<lparr> testQueue := idxs, testIdx := 0,
                      testScore := \<lparr> score_correct = 0, score_total = length idxs \<rparr>,
                      showBack := False, screen := Test \<rparr>
          in if isCasting s \<and> length (cards d) > 0
             then sendCastMessage
                    (CardMsg (card_at (cards d) (js_get idxs 0)) False 1 (length idxs)) s'
             else s')"

definition answerTest :: "bool \<Rightarrow> app_state \<Rightarrow> app_state" where
  "answerTest c s =
     (let s1 = s\<lparr> testScore := (testScore s)\<lparr> score_correct :=
                     score_correct (testScore s) + (if c then 1 else 0) \<rparr> \<rparr>
      in if testIdx s + 1 \<ge> length (testQueue s)
         then
           let s2 = s1\<lparr> screen := Results \<rparr>
           in if isCasting s
              then sendCastMessage
                     (ResultsMsg (score_correct (testScore s) + (if c then 1 else 0))
                        (length (testQueue s))) s2
              else s2
         else
           let s2 = s1\<lparr> testIdx := testIdx s + 1, showBack := False \<rparr>
           in (case activeDeck s of
                 None \<Rightarrow> s2
               | Some d \<Rightarrow>
                   if isCasting s \<and> length (cards d) > 0
                   then sendCastMessage
                          (CardMsg (card_at (cards d) (js_get (testQueue s) (testIdx s + 1)))
                             False (testIdx s + 2) (length (testQueue s))) s2
                   else s2))"

text \<open>
  The two answer buttons of the test screen are rendered, and so \<^verbatim>\<open>answerTest\<close> can be
  called, only under \<^verbatim>\<open>screen === "test" && activeDeck\<close>. A press of a button:
\<close>

definition pressTestAnswer :: "bool \<Rightarrow> app_state \<Rightarrow> app_state" where
  "pressTestAnswer c s =
     (if screen s = Test \<and> activeDeck s \<noteq> None then answerTest c s else s)"

fun testRun :: "bool list \<Rightarrow> app_state \<Rightarrow> app_state" where
  "testRun [] s = s"
| "testRun (b # bs) s = testRun bs (pressTestAnswer b s)"

section \<open>Saving a draft deck\<close>

text \<open>
  \<^verbatim>\<open>String.prototype.trim\<close> removes the white space and line terminator code units
  of ECMAScript from both ends.
\<close>

definition isWhiteSpace :: "16 word \<Rightarrow> bool" where
  "isWhiteSpace c \<longleftrightarrow>
     c \<in> {0x9, 0xA, 0xB, 0xC, 0xD, 0x20, 0xA0, 0x1680, 0x2028, 0x2029, 0x202F, 0x205F,
          0x3000, 0xFEFF}
     \<or> (0x2000 \<le> c \<and> c \<le> 0x200A)"

definition trim :: "jsstring \<Rightarrow> jsstring" where
  "trim s = rev (dropWhile isWhiteSpace (rev (dropWhile isWhiteSpace s)))"

text \<open>\<^verbatim>\<open>(x || "")\<close> for an optional string, and \<^verbatim>\<open>t || undefined\<close> for a string.\<close>

definition or_empty :: "jsstring option \<Rightarrow> jsstring" where
  "or_empty x = (case x of None \<Rightarrow> [] | Some t \<Rightarrow> t)"

definition or_undefined :: "jsstring \<Rightarrow> jsstring option" where
  "or_undefined t = (if t = [] then None else Some t)"

text \<open>
  The callback of \<^verbatim>\<open>map\<close> in \<^verbatim>\<open>saveDraft\<close>. \<open>fresh\<close> is the string \<^verbatim>\<open>uid()\<close> would
  return for this card; it is used when the id is the empty string. \<open>front\<close> is a string by
  the type of \<^verbatim>\<open>Card\<close>, so \<^verbatim>\<open>(c.front || "")\<close> is \<open>front c\<close>.
\<close>

definition cleanCard :: "jsstring \<Rightarrow> card \<Rightarrow> card" where
  "cleanCard fresh c =
     \<lparr> card_id = (if card_id c = [] then fresh else card_id c),
       front = trim (front c),
       card_back = or_undefined (trim (or_empty (card_back c))),
       hint = or_undefined (trim (or_empty (hint c))) \<rparr>"

text \<open>The object \<^verbatim>\<open>clean\<close> of \<^verbatim>\<open>saveDraft\<close>; \<open>uid k\<close> is what \<^verbatim>\<open>uid()\<close> returns for
  the card at position \<open>k\<close>.\<close>

definition cleanDraft :: "(nat \<Rightarrow> jsstring) \<Rightarrow> deck \<Rightarrow> deck" where
  "cleanDraft uid d =
     d\<lparr> name := (let n = trim (name d) in if n = [] then js ''Untitled Deck'' else n),
        cards := filter (\<lambda>c. length (front c) > 0)
                   (map (\<lambda>(k, c). cleanCard (uid k) c) (enumerate 0 (cards d))) \<rparr>"

text \<open>
  \<^verbatim>\<open>saveDraft\<close>, with the answer of the deck store as a parameter: \<open>created\<close> is the
  \<^verbatim>\<open>id\<close> of the record the store returned for a new deck, \<open>None\<close> when the call failed
  or the record has no id. The handler is taken as one step.
\<close>

definition saveDraft :: "(nat \<Rightarrow> jsstring) \<Rightarrow> jsstring option \<Rightarrow> app_state \<Rightarrow> app_state" where
  "saveDraft uid created s =
     (case draftDeck s of
        None \<Rightarrow> s
      | Some d \<Rightarrow>
          let clean = cleanDraft uid d
          in if isNewDeck s
             then
               let clean' =
                     (case created of
                        None \<Rightarrow> clean
                      | Some i \<Rightarrow>
                          if i \<noteq> [] \<and> i \<noteq> deck_id clean then clean\<lparr> deck_id := i \<rparr>
                          else clean)
               in s\<lparr> decks := decks s @ [clean'], activeDeckId := Some (deck_id clean'),
                     draftDeck := None, isNewDeck := False, screen := Mode \<rparr>
             else
               s\<lparr> decks := map (\<lambda>x. if deck_id x = deck_id clean then clean else x) (decks s),
                  activeDeckId := Some (deck_id clean),
                  draftDeck := None, isNewDeck := False, screen := Mode \<rparr>)"

text \<open>\<^verbatim>\<open>startModeChooser\<close>: a deck is picked on the home screen.\<close>

definition startModeChooser :: "jsstring \<Rightarrow> app_state \<Rightarrow> app_state" where
  "startModeChooser deckId s = s\<lparr> activeDeckId := Some deckId, screen := Mode \<rparr>"

section \<open>Example decks and states\<close>

text \<open>
  The three-card deck \<open>[A, B, C]\<close> of the specification's practice scenario, a deck
  without cards (what \<^verbatim>\<open>addDeck\<close> creates and an immediate save stores), and the
  states in which each has been picked on the home screen.
\<close>

definition letter_card :: "string \<Rightarrow> string \<Rightarrow> card" where
  "letter_card i w = \<lparr> card_id = js i, front = js w, card_back = None, hint = None \<rparr>"

definition abc_deck :: deck where
  "abc_deck =
     \<lparr> deck_id = js ''abc'', name = js ''ABC'',
       cards = [letter_card ''c1'' ''A'', letter_card ''c2'' ''B'', letter_card ''c3'' ''C''] \<rparr>"

definition empty_deck :: deck where
  "empty_deck = \<lparr> deck_id = js ''new'', name = js ''New Deck'', cards = [] \<rparr>"

definition abc_chosen :: app_state where
  "abc_chosen = startModeChooser (js ''abc'') (initial_state [abc_deck, empty_deck])"

definition empty_chosen :: app_state where
  "empty_chosen = startModeChooser (js ''new'') (initial_state [abc_deck, empty_deck])"

text \<open>The practice scenario: the queue is \<open>[B, A, C]\<close>, the cursor at 0, nothing seen yet.\<close>

definition abc_practice :: app_state where
  "abc_practice = abc_chosen\<lparr> screen := Practice, queue := [Some 1, Some 0, Some 2] \<rparr>"

text \<open>
  The draft of the specification's save scenario: a card \<open>cat\<close> and a blank card after
  it, under a name of blanks only; and the editor state of this draft as a new deck.
\<close>

definition cat_card :: card where
  "cat_card = \<lparr> card_id = js ''k1'', front = js ''cat'', card_back = Some (js ''''), hint = None \<rparr>"

definition blank_card :: card where
  "blank_card =
     \<lparr> card_id = js ''k2'', front = js '''', card_back = Some (js ''''), hint = Some (js '''') \<rparr>"

definition cat_draft :: deck where
  "cat_draft = \<lparr> deck_id = js ''d1'', name = js ''  '', cards = [cat_card, blank_card] \<rparr>"

definition editing_cat :: app_state where
  "editing_cat =
     (initial_state [])\<lparr> screen := Editor, activeDeckId := Some (js ''d1''),
        draftDeck := Some cat_draft, isNewDeck := True \<rparr>"

definition no_uid :: "nat \<Rightarrow> jsstring" where
  "no_uid k = js ''u''"

text \<open>A random source that always returns one half.\<close>

definition half :: "nat \<Rightarrow> real" where
  "half i = 1 / 2"

section \<open>Arrays: splice and the practice queue\<close>

lemma splice_remove_one:
  "idx < length q \<Longrightarrow> js_splice q idx (Suc 0) [] = ([q ! idx], take idx q @ drop (Suc idx) q)"
  by (cases "drop idx q")
    (auto simp: js_splice_def Let_def min_def take_Suc_conv_app_nth hd_drop_conv_nth
       Cons_nth_drop_Suc[symmetric])

lemma splice_insert_one:
  "snd (js_splice q k 0 [x]) = take k q @ [x] @ drop k q"
  by (simp add: js_splice_def Let_def min_def)

lemma requeue_True:
  "idx < length q \<Longrightarrow> requeue True idx q = take idx q @ drop (Suc idx) q @ [q ! idx]"
  by (simp add: requeue_def splice_remove_one first_of_def)

lemma length_remove_nth:
  "idx < length q \<Longrightarrow> length (take idx q @ drop (Suc idx) q) = length q - 1"
  by simp

lemma clamp_min: "clamp n 0 hi = min n hi"
  by (simp add: clamp_def min.commute)

lemma requeue_False:
  assumes "idx < length q"
  shows "requeue False idx q =
     take (min (idx + 2) (length q - 1)) (take idx q @ drop (Suc idx) q) @ [q ! idx]
       @ drop (min (idx + 2) (length q - 1)) (take idx q @ drop (Suc idx) q)"
proof -
  let ?r = "take idx q @ drop (Suc idx) q"
  have "requeue False idx q = snd (js_splice ?r (clamp (idx + 2) 0 (length ?r)) 0 [q ! idx])"
    using assms by (simp add: requeue_def splice_remove_one first_of_def)
  also have "\<dots> = take (min (idx + 2) (length ?r)) ?r @ [q ! idx] @ drop (min (idx + 2) (length ?r)) ?r"
    by (simp only: splice_insert_one clamp_min)
  finally show ?thesis by (simp only: length_remove_nth[OF assms])
qed

lemma length_requeue: "idx < length q \<Longrightarrow> length (requeue c idx q) = length q"
  by (cases c) (auto simp: requeue_True requeue_False)

lemma mset_remove_nth:
  assumes "idx < length q"
  shows "mset (take idx q @ drop (Suc idx) q) + {#q ! idx#} = mset q"
proof -
  have "mset q = mset (take idx q @ q ! idx # drop (Suc idx) q)"
    by (rule arg_cong[OF id_take_nth_drop[OF assms]])
  then show ?thesis by simp
qed

lemma mset_requeue: "idx < length q \<Longrightarrow> mset (requeue c idx q) = mset q"
proof (cases c)
  case True
  assume "idx < length q"
  then show ?thesis using True mset_remove_nth[of idx q] by (simp add: requeue_True)
next
  case False
  assume h: "idx < length q"
  let ?r = "take idx q @ drop (Suc idx) q"
  let ?k = "min (idx + 2) (length q - 1)"
  have "mset (take ?k ?r @ [q ! idx] @ drop ?k ?r) = mset (take ?k ?r @ drop ?k ?r) + {#q ! idx#}"
    by (simp only: mset_append mset.simps) simp
  also have "\<dots> = mset ?r + {#q ! idx#}" by (simp only: append_take_drop_id)
  also have "\<dots> = mset q" using mset_remove_nth[OF h] .
  finally show ?thesis using False h by (simp only: requeue_False)
qed

lemma random_index_le:
  "0 \<le> rnd i \<Longrightarrow> rnd i < 1 \<Longrightarrow> random_index rnd i \<le> i"
proof -
  assume a: "0 \<le> rnd i" and b: "rnd i < 1"
  have "rnd i * real (i + 1) < real (i + 1)" using b by simp
  then have "\<lfloor>rnd i * real (i + 1)\<rfloor> < int (i + 1)" by (simp add: floor_less_iff)
  then show ?thesis by (simp add: random_index_def)
qed

lemma swap_entries_in_range:
  "i < length a \<Longrightarrow> j < length a \<Longrightarrow> swap_entries a i j = a[i := a ! j, j := a ! i]"
  by (simp add: swap_entries_def js_get_def js_set_def)

lemma shuffle_loop_fold:
  "\<forall>i. 0 \<le> rnd i \<and> rnd i < 1 \<Longrightarrow> k < length a \<Longrightarrow>
   shuffle_loop rnd k a =
     foldl (\<lambda>b i. b[i := b ! random_index rnd i, random_index rnd i := b ! i]) a (rev [1..<Suc k])"
proof (induction k arbitrary: a)
  case 0
  then show ?case by simp
next
  case (Suc k)
  have j: "random_index rnd (Suc k) \<le> Suc k" using Suc.prems(1) by (simp add: random_index_le)
  then have jl: "random_index rnd (Suc k) < length a" using Suc.prems(2) by simp
  have sw: "swap_entries a (Suc k) (random_index rnd (Suc k))
            = a[Suc k := a ! random_index rnd (Suc k), random_index rnd (Suc k) := a ! Suc k]"
    using Suc.prems(2) jl by (rule swap_entries_in_range)
  have "k < length (swap_entries a (Suc k) (random_index rnd (Suc k)))"
    using Suc.prems(2) by (simp add: sw)
  from Suc.IH[OF Suc.prems(1) this] show ?case by (simp add: sw)
qed

lemma mset_fold_swaps:
  "\<forall>i \<in> set is. i < length a \<and> pick i \<le> i \<Longrightarrow>
   mset (foldl (\<lambda>b i. b[i := b ! pick i, pick i := b ! i]) a is) = mset a
   \<and> length (foldl (\<lambda>b i. b[i := b ! pick i, pick i := b ! i]) a is) = length a"
proof (induction "is" arbitrary: a)
  case Nil
  then show ?case by simp
next
  case (Cons i "is")
  let ?a = "a[i := a ! pick i, pick i := a ! i]"
  have i: "i < length a" "pick i < length a" using Cons.prems by auto
  have m: "mset ?a = mset a" using i by (simp add: mset_swap)
  have "\<forall>k \<in> set is. k < length ?a \<and> pick k \<le> k" using Cons.prems by simp
  from Cons.IH[OF this] show ?case using m by simp
qed

section \<open>Practice steps\<close>

lemma activeDeck_update_irrelevant [simp]:
  "activeDeck (s\<lparr> queue := q \<rparr>) = activeDeck s"
  "activeDeck (s\<lparr> currentIdx := i \<rparr>) = activeDeck s"
  "activeDeck (s\<lparr> showBack := b \<rparr>) = activeDeck s"
  "activeDeck (s\<lparr> stats := st \<rparr>) = activeDeck s"
  "activeDeck (s\<lparr> sent := ms \<rparr>) = activeDeck s"
  "activeDeck (s\<lparr> testQueue := q \<rparr>) = activeDeck s"
  "activeDeck (s\<lparr> testIdx := i \<rparr>) = activeDeck s"
  "activeDeck (s\<lparr> testScore := sc \<rparr>) = activeDeck s"
  "activeDeck (s\<lparr> screen := scr \<rparr>) = activeDeck s"
  by (simp_all add: activeDeck_def split: option.splits)

lemma nextPractice_noop:
  "activeDeck s = None \<or> queue s = [] \<Longrightarrow> nextPractice c s = s"
  by (auto simp: nextPractice_def split: option.splits)

lemma nextPractice_activeDeck: "activeDeck (nextPractice c s) = activeDeck s"
  by (simp add: nextPractice_def sendCastMessage_def Let_def split: option.splits)

lemma nextPractice_queue:
  "activeDeck s \<noteq> None \<Longrightarrow> queue s \<noteq> [] \<Longrightarrow>
   queue (nextPractice c s) = requeue c (currentIdx s) (queue s)"
  by (auto simp: nextPractice_def sendCastMessage_def Let_def split: option.splits)

lemma nextPractice_currentIdx:
  "activeDeck s \<noteq> None \<Longrightarrow> queue s \<noteq> [] \<Longrightarrow>
   currentIdx (nextPractice c s) =
     (if currentIdx s \<ge> length (requeue c (currentIdx s) (queue s)) then 0 else currentIdx s)"
  by (auto simp: nextPractice_def sendCastMessage_def Let_def split: option.splits)

lemma nextPractice_stats:
  "activeDeck s \<noteq> None \<Longrightarrow> queue s \<noteq> [] \<Longrightarrow>
   stats (nextPractice c s) =
     \<lparr> seen = seen (stats s) + 1, correct = correct (stats s) + (if c then 1 else 0) \<rparr>"
  by (auto simp: nextPractice_def sendCastMessage_def Let_def split: option.splits)

lemma nextPractice_showBack:
  "activeDeck s \<noteq> None \<Longrightarrow> queue s \<noteq> [] \<Longrightarrow> showBack (nextPractice c s) = False"
  by (auto simp: nextPractice_def sendCastMessage_def Let_def split: option.splits)

lemma requeue_head_True: "requeue True 0 (x # rest) = rest @ [x]"
  using requeue_True[of 0 "x # rest"] by simp

lemma requeue_head_False:
  "requeue False 0 (x # rest) = take 2 rest @ [x] @ drop 2 rest"
  using requeue_False[of 0 "x # rest"] by (simp add: min_def numeral_2_eq_2)

lemma subseq_requeue_head: "subseq rest (requeue b 0 (x # rest))"
proof (cases b)
  case True
  have "subseq (rest @ []) (rest @ [x])" by (intro list_emb_append_mono) simp_all
  then show ?thesis using True by (simp add: requeue_head_True)
next
  case False
  have "subseq (take 2 rest @ drop 2 rest) (take 2 rest @ [x] @ drop 2 rest)"
    by (intro list_emb_append_mono) (auto intro: list_emb_Cons)
  then show ?thesis using False by (simp only: requeue_head_False append_take_drop_id)
qed

lemma head_not_after:
  assumes "distinct (c # t)"
  shows "\<not> subseq [y, c] (c # t)"
proof
  assume "subseq [y, c] (c # t)"
  then have "subseq [c] t" by (cases "y = c") (auto dest: subseq_Cons')
  then have "c \<in> set t" by (auto dest: list_emb_set)
  then show False using assms by simp
qed

lemma practice_invariant:
  assumes "activeDeck s \<noteq> None" "queue s \<noteq> []" "currentIdx s = 0" "distinct (queue s)"
  shows "activeDeck (nextPractice b s) \<noteq> None \<and> queue (nextPractice b s) \<noteq> []
         \<and> currentIdx (nextPractice b s) = 0 \<and> distinct (queue (nextPractice b s))
         \<and> queue (nextPractice b s) = requeue b 0 (queue s)"
proof -
  have p: "currentIdx s < length (queue s)" using assms by simp
  have q: "queue (nextPractice b s) = requeue b 0 (queue s)"
    using assms nextPractice_queue[of s b] by simp
  have l: "length (requeue b 0 (queue s)) = length (queue s)"
    using p assms(3) length_requeue[of 0 "queue s" b] by simp
  have m: "mset (requeue b 0 (queue s)) = mset (queue s)"
    using p assms(3) mset_requeue[of 0 "queue s" b] by simp
  have d: "distinct (requeue b 0 (queue s))"
    using m assms(4) mset_eq_imp_distinct_iff by blast
  have i: "currentIdx (nextPractice b s) = 0"
    using assms nextPractice_currentIdx[of s b] by simp
  have n: "requeue b 0 (queue s) \<noteq> []" using l assms(2) by auto
  show ?thesis using q d i n assms(1) by (simp add: nextPractice_activeDeck)
qed

lemma seen_before_again:
  assumes "activeDeck s \<noteq> None" "queue s \<noteq> []" "currentIdx s = 0" "distinct (queue s)"
    and "subseq [y, c] (queue s)"
    and "currentEntry (practiceRun bs s) = c"
  shows "\<exists>k<length bs. currentEntry (practiceRun (take k bs) s) = y"
  using assms
proof (induction bs arbitrary: s)
  case Nil
  obtain x rest where q: "queue s = x # rest" using Nil.prems(2) by (cases "queue s") auto
  have "x = c" using Nil.prems(3,6) q by (simp add: currentEntry_def js_get_def)
  then have False using head_not_after[of c rest y] Nil.prems(4,5) q by simp
  then show ?case ..
next
  case (Cons b bs)
  obtain x rest where q: "queue s = x # rest" using Cons.prems(2) by (cases "queue s") auto
  have cur: "currentEntry s = x" using Cons.prems(3) q by (simp add: currentEntry_def js_get_def)
  show ?case
  proof (cases "y = x")
    case True
    then have "currentEntry (practiceRun (take 0 (b # bs)) s) = y" using cur by simp
    then show ?thesis by (intro exI[of _ 0]) simp
  next
    case False
    let ?s = "nextPractice b s"
    have inv: "activeDeck ?s \<noteq> None" "queue ?s \<noteq> []" "currentIdx ?s = 0" "distinct (queue ?s)"
      and qq: "queue ?s = requeue b 0 (queue s)"
      using practice_invariant[OF Cons.prems(1-4), of b] by blast+
    have "subseq [y, c] rest" using Cons.prems(5) q False by (simp add: subseq_Cons2_neq)
    then have sub: "subseq [y, c] (queue ?s)"
      using subseq_requeue_head[of rest b x] q qq subseq_order.order_trans by metis
    have fin: "currentEntry (practiceRun bs ?s) = c" using Cons.prems(6) by simp
    from Cons.IH[OF inv sub fin] obtain k where k: "k < length bs"
      "currentEntry (practiceRun (take k bs) ?s) = y" by blast
    then have "Suc k < length (b # bs) \<and> currentEntry (practiceRun (take (Suc k) (b # bs)) s) = y"
      by simp
    then show ?thesis by blast
  qed
qed

section \<open>The reveal toggle\<close>

text \<open>
  Claim C9. Calling \<^verbatim>\<open>flip\<close> (the reveal operation) twice in a row returns
  \<open>showBack\<close> to its original value, in fact the whole state to the original state,
  and a single call leaves the practice queue, the position and the statistics unchanged.
\<close>

theorem flip_involution:
  "showBack (flip (flip s)) = showBack s \<and> flip (flip s) = s
   \<and> queue (flip s) = queue s \<and> currentIdx (flip s) = currentIdx s
   \<and> stats (flip s) = stats s"
  by (simp add: flip_def)

section \<open>The shuffle\<close>

lemma shuffleArray_spec:
  assumes "\<forall>i. 0 \<le> rnd i \<and> rnd i < 1"
  shows "shuffleArray rnd a = fisher_yates_spec (random_index rnd) a"
proof (cases a)
  case Nil
  then show ?thesis by (simp add: shuffleArray_def fisher_yates_spec_def)
next
  case (Cons x xs)
  then have k: "length a - 1 < length a" and e: "Suc (length a - 1) = length a" by simp_all
  show ?thesis
    unfolding shuffleArray_def fisher_yates_spec_def
    using shuffle_loop_fold[OF assms k] by (simp only: e)
qed

lemma shuffleArray_mset:
  assumes "\<forall>i. 0 \<le> rnd i \<and> rnd i < 1"
  shows "mset (shuffleArray rnd a) = mset a \<and> length (shuffleArray rnd a) = length a"
proof -
  have "\<forall>i \<in> set (rev [1..<length a]). i < length a \<and> random_index rnd i \<le> i"
    using assms by (simp add: random_index_le)
  from mset_fold_swaps[OF this] show ?thesis
    by (simp only: shuffleArray_spec[OF assms] fisher_yates_spec_def)
qed

lemma shuffleArray_Nil: "shuffleArray rnd [] = []"
  by (simp add: shuffleArray_def)

lemma distinct_indices: "distinct (indices n)"
  by (simp add: indices_def distinct_map)

lemma set_indices: "set (indices n) = Some ` {0..<n}"
  by (simp add: indices_def)

lemma permutation_of_indices:
  assumes "mset q = mset (indices n)"
  shows "distinct q \<and> set q = Some ` {0..<n}"
proof -
  have "distinct q" using assms distinct_indices[of n] mset_eq_imp_distinct_iff by blast
  moreover have "set q = Some ` {0..<n}" using assms set_indices[of n] mset_eq_setD by blast
  ultimately show ?thesis ..
qed

text \<open>
  Claim C4. With a random source that returns numbers from 0 up to but excluding 1, the
  shuffle of the indices of \<open>n\<close> cards is a permutation of \<open>0..n-1\<close>: the same multiset,
  length \<open>n\<close>, no duplicates, no omissions. The loop computes what the Fisher-Yates
  description says: for each index from the last down to 1, a swap with the element at the
  drawn position, which is at or before the index. For \<open>n = 0\<close> the result is empty.
\<close>

theorem shuffle_permutation:
  assumes "\<forall>i. 0 \<le> rnd i \<and> rnd i < 1"
  shows "mset (shuffleArray rnd (indices n)) = mset (indices n)
       \<and> length (shuffleArray rnd (indices n)) = n
       \<and> distinct (shuffleArray rnd (indices n))
       \<and> set (shuffleArray rnd (indices n)) = Some ` {0..<n}
       \<and> shuffleArray rnd (indices n) = fisher_yates_spec (random_index rnd) (indices n)
       \<and> (\<forall>i. random_index rnd i \<le> i)
       \<and> shuffleArray rnd (indices 0) = []"
proof -
  have m: "mset (shuffleArray rnd (indices n)) = mset (indices n)"
    and l: "length (shuffleArray rnd (indices n)) = length (indices n)"
    using shuffleArray_mset[OF assms, of "indices n"] by simp_all
  have d: "distinct (shuffleArray rnd (indices n))"
    using m distinct_indices[of n] mset_eq_imp_distinct_iff by blast
  have s: "set (shuffleArray rnd (indices n)) = Some ` {0..<n}"
    using m set_indices[of n] mset_eq_setD by blast
  have r: "\<forall>i. random_index rnd i \<le> i" using assms by (simp add: random_index_le)
  have z: "shuffleArray rnd (indices 0) = []" by (simp add: indices_def shuffleArray_Nil)
  show ?thesis using m l d s r z shuffleArray_spec[OF assms, of "indices n"]
    by (simp add: indices_def)
qed

lemma half_unit: "\<forall>i. 0 \<le> half i \<and> half i < 1"
  by (simp add: half_def)

lemma shuffle_half_3: "shuffleArray half (indices 3) = [Some 0, Some 2, Some 1]"
  by (simp add: shuffleArray_def indices_def numeral_3_eq_3 swap_entries_def js_get_def js_set_def
      random_index_def half_def upt_conv_Cons)

theorem shuffle_permutation_witness:
  "(\<forall>i. 0 \<le> half i \<and> half i < 1)
   \<and> shuffleArray half (indices 3) = [Some 0, Some 2, Some 1]
   \<and> mset (shuffleArray half (indices 3)) = mset (indices 3)
   \<and> length (shuffleArray half (indices 3)) = 3
   \<and> distinct (shuffleArray half (indices 3))
   \<and> shuffleArray half (indices 3) = fisher_yates_spec (random_index half) (indices 3)"
  using shuffle_permutation[OF half_unit, of 3] half_unit shuffle_half_3 by blast

section \<open>The cursor of a practice session\<close>

text \<open>
  \<^verbatim>\<open>setCurrentIdx\<close> is called in three places: the practice effect and
  \<^verbatim>\<open>shuffleNow\<close> set the cursor to 0, \<^verbatim>\<open>nextPractice\<close> sets it to 0 or keeps it.
  It starts at 0, so it is 0 in every state the application reaches, and it is on an entry
  of the queue whenever the queue is not empty.
\<close>

lemma cursor_initially_zero: "currentIdx (initial_state ds) = 0"
  by (simp add: initial_state_def)

lemma cursor_set_to_zero:
  "currentIdx (practiceEffect rnd s) = 0 \<or> practiceEffect rnd s = s"
  "currentIdx (shuffleNow rnd s) = 0 \<or> shuffleNow rnd s = s"
  by (auto simp: practiceEffect_def shuffleNow_def sendCastMessage_def Let_def
      split: option.splits)

lemma cursor_stays_zero:
  assumes "currentIdx s = 0"
  shows "currentIdx (nextPractice c s) = 0"
    and "currentIdx (practiceEffect rnd s) = 0"
    and "currentIdx (shuffleNow rnd s) = 0"
    and "currentIdx (flip s) = 0"
    and "currentIdx (startModeChooser i s) = 0"
    and "currentIdx (startTest rnd s) = 0"
    and "currentIdx (answerTest c s) = 0"
    and "currentIdx (saveDraft uid created s) = 0"
  using assms
  by (auto simp: nextPractice_def practiceEffect_def shuffleNow_def flip_def
      startModeChooser_def startTest_def answerTest_def saveDraft_def sendCastMessage_def
      Let_def split: option.splits)

section \<open>Practice advance: conservation, position, reinsertion\<close>

lemma abc_practice_facts:
  "activeDeck abc_practice = Some abc_deck"
  "queue abc_practice = [Some 1, Some 0, Some 2]"
  "currentIdx abc_practice = 0"
  "stats abc_practice = \<lparr> seen = 0, correct = 0 \<rparr>"
  by (simp_all add: abc_practice_def abc_chosen_def startModeChooser_def initial_state_def
      activeDeck_def abc_deck_def)

lemma mset_indices_3: "mset [Some (1::nat), Some 0, Some 2] = mset (indices 3)"
  by (simp add: indices_def numeral_3_eq_3 upt_conv_Cons)

text \<open>
  Claim C5. A practice advance on a non-empty queue, with the cursor on an entry of the
  queue, keeps the length of the queue and its multiset; a queue that was a permutation of
  \<open>0..n-1\<close> is one afterwards (no duplicates, no omissions).
\<close>

theorem practice_queue_conserved:
  assumes "currentIdx s < length (queue s)"
  shows "length (queue (nextPractice c s)) = length (queue s)
       \<and> mset (queue (nextPractice c s)) = mset (queue s)
       \<and> (mset (queue s) = mset (indices n) \<longrightarrow>
            mset (queue (nextPractice c s)) = mset (indices n)
          \<and> distinct (queue (nextPractice c s))
          \<and> set (queue (nextPractice c s)) = Some ` {0..<n})"
proof -
  let ?q = "queue (nextPractice c s)"
  have ne: "queue s \<noteq> []" using assms by auto
  have q: "?q = queue s \<or> ?q = requeue c (currentIdx s) (queue s)"
  proof (cases "activeDeck s = None")
    case True
    then show ?thesis by (simp add: nextPractice_noop)
  next
    case False
    then show ?thesis using ne by (simp add: nextPractice_queue)
  qed
  have l: "length ?q = length (queue s)" using q assms by (auto simp: length_requeue)
  have m: "mset ?q = mset (queue s)" using q assms by (auto simp: mset_requeue)
  have p: "distinct ?q \<and> set ?q = Some ` {0..<n}" if "mset (queue s) = mset (indices n)"
    using m that by (simp add: permutation_of_indices)
  show ?thesis using l m p by simp
qed

theorem practice_queue_conserved_witness:
  "currentIdx abc_practice < length (queue abc_practice)
   \<and> mset (queue abc_practice) = mset (indices 3)
   \<and> length (queue (nextPractice False abc_practice)) = 3
   \<and> mset (queue (nextPractice False abc_practice)) = mset (indices 3)
   \<and> distinct (queue (nextPractice False abc_practice))
   \<and> set (queue (nextPractice False abc_practice)) = Some ` {0..<3}"
proof -
  have h: "currentIdx abc_practice < length (queue abc_practice)"
    by (simp add: abc_practice_facts)
  have m: "mset (queue abc_practice) = mset (indices 3)"
    by (simp only: abc_practice_facts mset_indices_3)
  have l: "length (queue abc_practice) = 3" by (simp add: abc_practice_facts)
  show ?thesis using practice_queue_conserved[OF h, of False 3] h m l by simp
qed

text \<open>
  Claim C10. A practice advance on a non-empty queue with the cursor inside the queue
  leaves the cursor where it was: the rebuilt queue has the length of the old one, so the
  test \<^verbatim>\<open>currentIdx >= q.length\<close> that would reset the cursor to 0 is false.
\<close>

theorem practice_position_unchanged:
  assumes "currentIdx s < length (queue s)"
  shows "currentIdx (nextPractice c s) = currentIdx s
       \<and> \<not> (currentIdx s \<ge> length (requeue c (currentIdx s) (queue s)))
       \<and> length (requeue c (currentIdx s) (queue s)) = length (queue s)"
proof -
  have ne: "queue s \<noteq> []" using assms by auto
  have l: "length (requeue c (currentIdx s) (queue s)) = length (queue s)"
    using assms by (rule length_requeue)
  then have n: "\<not> (currentIdx s \<ge> length (requeue c (currentIdx s) (queue s)))"
    using assms by simp
  have "currentIdx (nextPractice c s) = currentIdx s"
  proof (cases "activeDeck s = None")
    case True
    then show ?thesis by (simp add: nextPractice_noop)
  next
    case False
    then show ?thesis using nextPractice_currentIdx[OF False ne, of c] n by simp
  qed
  then show ?thesis using n l by simp
qed

theorem practice_position_unchanged_witness:
  "currentIdx abc_practice < length (queue abc_practice)
   \<and> currentIdx (nextPractice True abc_practice) = currentIdx abc_practice
   \<and> currentIdx (nextPractice False abc_practice) = 0"
proof -
  have h: "currentIdx abc_practice < length (queue abc_practice)"
    by (simp add: abc_practice_facts)
  show ?thesis
    using practice_position_unchanged[OF h, of True] practice_position_unchanged[OF h, of False] h
    by (simp add: abc_practice_facts)
qed

text \<open>
  Claim C6. A practice advance with \<open>correct = false\<close> on a non-empty queue, the cursor
  \<open>p\<close> on an entry of the queue, removes that entry and puts it back at index
  \<open>min (p + 2) (length r)\<close> of the queue \<open>r\<close> that is one shorter; \<open>seen\<close> goes up by one
  and \<open>correct\<close> stays. With the queue \<open>[B, A, C]\<close> and the cursor at 0 the result is
  \<open>[A, C, B]\<close> with statistics \<open>seen = 1, correct = 0\<close>.
\<close>

theorem wrong_card_reinserted:
  assumes "activeDeck s \<noteq> None" "queue s \<noteq> []" "currentIdx s < length (queue s)"
  shows "(let p = currentIdx s; q = queue s;
              r = take p q @ drop (Suc p) q;
              k = min (p + 2) (length r)
          in queue (nextPractice False s) = take k r @ [q ! p] @ drop k r
             \<and> length r = length q - 1)
       \<and> seen (stats (nextPractice False s)) = seen (stats s) + 1
       \<and> correct (stats (nextPractice False s)) = correct (stats s)
       \<and> (queue s = [Some 1, Some 0, Some 2] \<and> currentIdx s = 0
            \<and> stats s = \<lparr> seen = 0, correct = 0 \<rparr> \<longrightarrow>
          queue (nextPractice False s) = [Some 0, Some 2, Some 1]
          \<and> stats (nextPractice False s) = \<lparr> seen = 1, correct = 0 \<rparr>)"
proof -
  let ?p = "currentIdx s" and ?q = "queue s"
  let ?r = "take ?p ?q @ drop (Suc ?p) ?q"
  have lr: "length ?r = length ?q - 1" using assms(3) by (rule length_remove_nth)
  have q: "queue (nextPractice False s) =
             take (min (?p + 2) (length ?r)) ?r @ [?q ! ?p] @ drop (min (?p + 2) (length ?r)) ?r"
    using nextPractice_queue[OF assms(1,2), of False] requeue_False[OF assms(3)]
    by (simp only: lr)
  have st: "stats (nextPractice False s) = \<lparr> seen = seen (stats s) + 1, correct = correct (stats s) \<rparr>"
    using nextPractice_stats[OF assms(1,2), of False] by simp
  have ex: "queue (nextPractice False s) = [Some 0, Some 2, Some 1]
            \<and> stats (nextPractice False s) = \<lparr> seen = 1, correct = 0 \<rparr>"
    if "queue s = [Some 1, Some 0, Some 2]" "currentIdx s = 0" "stats s = \<lparr> seen = 0, correct = 0 \<rparr>"
    using q st that by simp
  show ?thesis using q lr st ex by (simp add: Let_def)
qed

theorem wrong_card_reinserted_witness:
  "activeDeck abc_practice \<noteq> None \<and> queue abc_practice \<noteq> []
   \<and> currentIdx abc_practice < length (queue abc_practice)
   \<and> queue abc_practice = [Some 1, Some 0, Some 2] \<and> currentIdx abc_practice = 0
   \<and> stats abc_practice = \<lparr> seen = 0, correct = 0 \<rparr>
   \<and> queue (nextPractice False abc_practice) = [Some 0, Some 2, Some 1]
   \<and> stats (nextPractice False abc_practice) = \<lparr> seen = 1, correct = 0 \<rparr>"
proof -
  have h: "activeDeck abc_practice \<noteq> None" "queue abc_practice \<noteq> []"
    "currentIdx abc_practice < length (queue abc_practice)"
    by (simp_all add: abc_practice_facts)
  show ?thesis using wrong_card_reinserted[OF h] h by (simp add: abc_practice_facts)
qed

section \<open>Practice advance: a card answered correctly\<close>

lemma practice_step_head:
  assumes "activeDeck s \<noteq> None" "queue s = x # rest" "currentIdx s = 0"
  shows "queue (nextPractice True s) = rest @ [x]"
    and "queue (nextPractice False s) = take 2 rest @ [x] @ drop 2 rest"
    and "currentIdx (nextPractice c s) = 0"
    and "activeDeck (nextPractice c s) \<noteq> None"
proof -
  have ne: "queue s \<noteq> []" using assms(2) by simp
  show "queue (nextPractice True s) = rest @ [x]"
    using nextPractice_queue[OF assms(1) ne, of True] assms(2,3) by (simp add: requeue_head_True)
  show "queue (nextPractice False s) = take 2 rest @ [x] @ drop 2 rest"
    using nextPractice_queue[OF assms(1) ne, of False] assms(2,3)
    by (simp only: requeue_head_False)
  show "currentIdx (nextPractice c s) = 0"
    using nextPractice_currentIdx[OF assms(1) ne, of c] assms(3) by simp
  show "activeDeck (nextPractice c s) \<noteq> None"
    using assms(1) by (simp add: nextPractice_activeDeck)
qed

text \<open>
  Claim C2. A practice advance with \<open>correct = true\<close> on a non-empty queue, the cursor on
  an entry of the queue, removes that entry and appends it to the end of the queue. With
  the cursor at 0 (the only value the handlers ever give it) and a queue without
  duplicates, in every run of further advances the entry is under the cursor again only
  after every other entry of the queue has been under the cursor.
\<close>

theorem correct_card_goes_last:
  assumes "activeDeck s \<noteq> None" "queue s \<noteq> []" "currentIdx s < length (queue s)"
  shows "queue (nextPractice True s) =
           take (currentIdx s) (queue s) @ drop (Suc (currentIdx s)) (queue s)
             @ [queue s ! currentIdx s]
       \<and> (currentIdx s = 0 \<and> distinct (queue s) \<longrightarrow>
            (\<forall>bs. currentEntry (practiceRun bs (nextPractice True s)) = queue s ! 0 \<longrightarrow>
               (\<forall>x \<in> set (queue s). x \<noteq> queue s ! 0 \<longrightarrow>
                  (\<exists>k<length bs.
                     currentEntry (practiceRun (take k bs) (nextPractice True s)) = x))))"
proof -
  let ?s = "nextPractice True s"
  have q: "queue ?s = take (currentIdx s) (queue s) @ drop (Suc (currentIdx s)) (queue s)
                          @ [queue s ! currentIdx s]"
    using nextPractice_queue[OF assms(1,2), of True] requeue_True[OF assms(3)] by simp
  have later: "\<exists>k<length bs. currentEntry (practiceRun (take k bs) ?s) = x"
    if z: "currentIdx s = 0" and d: "distinct (queue s)"
      and fin: "currentEntry (practiceRun bs ?s) = queue s ! 0"
      and x: "x \<in> set (queue s)" "x \<noteq> queue s ! 0"
    for bs x
  proof -
    obtain c rest where qs: "queue s = c # rest" using assms(2) by (cases "queue s") auto
    have inv: "activeDeck ?s \<noteq> None" "queue ?s \<noteq> []" "currentIdx ?s = 0" "distinct (queue ?s)"
      using practice_invariant[OF assms(1,2) z d, of True] by blast+
    have q': "queue ?s = rest @ [c]" using q z qs by simp
    have "x \<in> set rest" using x qs by simp
    then obtain l1 l2 where "rest = l1 @ x # l2" by (auto simp: in_set_conv_decomp)
    then have "queue ?s = l1 @ [x] @ l2 @ [c]" using q' by simp
    moreover have "subseq ([] @ [x] @ [] @ [c]) (l1 @ [x] @ l2 @ [c])"
      by (intro list_emb_append_mono) simp_all
    ultimately have sub: "subseq [x, c] (queue ?s)" by simp
    have fin': "currentEntry (practiceRun bs ?s) = c" using fin qs by simp
    show ?thesis using seen_before_again[OF inv sub fin'] .
  qed
  show ?thesis using q later by blast
qed

lemma abc_practice_facts2:
  "activeDeck abc_practice \<noteq> None"
  "queue abc_practice = [Some 1, Some 0, Some 2]"
  "currentIdx abc_practice = 0"
  by (simp_all add: abc_practice_facts)

theorem correct_card_goes_last_witness:
  "activeDeck abc_practice \<noteq> None \<and> queue abc_practice \<noteq> []
   \<and> currentIdx abc_practice < length (queue abc_practice)
   \<and> currentIdx abc_practice = 0 \<and> distinct (queue abc_practice)
   \<and> queue abc_practice ! 0 = Some 1
   \<and> queue (nextPractice True abc_practice) = [Some 0, Some 2, Some 1]
   \<and> currentEntry (practiceRun [False, True] (nextPractice True abc_practice)) = Some 1
   \<and> (\<exists>k<2. currentEntry (practiceRun (take k [False, True]) (nextPractice True abc_practice))
              = Some 0)
   \<and> (\<exists>k<2. currentEntry (practiceRun (take k [False, True]) (nextPractice True abc_practice))
              = Some 2)"
proof -
  let ?s1 = "nextPractice True abc_practice"
  let ?s2 = "nextPractice False ?s1"
  let ?s3 = "nextPractice True ?s2"
  have h: "activeDeck abc_practice \<noteq> None" "queue abc_practice \<noteq> []"
    "currentIdx abc_practice < length (queue abc_practice)"
    by (simp_all add: abc_practice_facts)
  have z: "currentIdx abc_practice = 0 \<and> distinct (queue abc_practice)"
    by (simp add: abc_practice_facts)
  note t = correct_card_goes_last[OF h]
  have s1: "queue ?s1 = [Some 0, Some 2, Some 1]" "currentIdx ?s1 = 0" "activeDeck ?s1 \<noteq> None"
    using practice_step_head[OF abc_practice_facts2] by simp_all
  have s2: "queue ?s2 = [Some 2, Some 1, Some 0]" "currentIdx ?s2 = 0" "activeDeck ?s2 \<noteq> None"
    using practice_step_head[OF s1(3,1,2)] by simp_all
  have s3: "queue ?s3 = [Some 1, Some 0, Some 2]" "currentIdx ?s3 = 0"
    using practice_step_head[OF s2(3,1,2)] by simp_all
  have fin: "currentEntry (practiceRun [False, True] ?s1) = queue abc_practice ! 0"
    using s3 by (simp add: currentEntry_def js_get_def abc_practice_facts)
  have later: "x \<in> set (queue abc_practice) \<Longrightarrow> x \<noteq> queue abc_practice ! 0 \<Longrightarrow>
      \<exists>k<length [False, True]. currentEntry (practiceRun (take k [False, True]) ?s1) = x" for x
    using t z fin by blast
  have a: "\<exists>k<length [False, True]. currentEntry (practiceRun (take k [False, True]) ?s1) = Some 0"
    by (rule later) (simp_all add: abc_practice_facts)
  have b: "\<exists>k<length [False, True]. currentEntry (practiceRun (take k [False, True]) ?s1) = Some 2"
    by (rule later) (simp_all add: abc_practice_facts)
  have f: "currentEntry (practiceRun [False, True] ?s1) = Some 1" "queue abc_practice ! 0 = Some 1"
    using fin by (simp_all add: abc_practice_facts)
  have two: "length [False, True] = 2" by simp
  show ?thesis using h z s1(1) f a b unfolding two by blast
qed

section \<open>Test sessions\<close>

lemma startTest_fields:
  assumes "activeDeck s = Some d"
  shows "testQueue (startTest rnd s) = shuffleArray rnd (indices (length (cards d)))"
    and "testIdx (startTest rnd s) = 0"
    and "testScore (startTest rnd s) =
           \<lparr> score_correct = 0,
             score_total = length (shuffleArray rnd (indices (length (cards d)))) \<rparr>"
    and "screen (startTest rnd s) = Test"
    and "activeDeck (startTest rnd s) = Some d"
    and "sent (startTest rnd s) =
           (if isCasting s \<and> length (cards d) > 0
            then sent s @ [CardMsg (card_at (cards d)
                            (js_get (shuffleArray rnd (indices (length (cards d)))) 0))
                            False 1 (length (shuffleArray rnd (indices (length (cards d)))))]
            else sent s)"
  using assms by (simp_all add: startTest_def sendCastMessage_def Let_def)

lemma answerTest_fields:
  "testQueue (answerTest c s) = testQueue s"
  "score_total (testScore (answerTest c s)) = score_total (testScore s)"
  "score_correct (testScore (answerTest c s)) = score_correct (testScore s) + (if c then 1 else 0)"
  "activeDeck (answerTest c s) = activeDeck s"
  "queue (answerTest c s) = queue s"
  "currentIdx (answerTest c s) = currentIdx s"
  by (simp_all add: answerTest_def sendCastMessage_def Let_def split: option.splits)

lemma answerTest_last:
  "testIdx s + 1 \<ge> length (testQueue s) \<Longrightarrow>
   screen (answerTest c s) = Results \<and> testIdx (answerTest c s) = testIdx s"
  by (simp add: answerTest_def sendCastMessage_def Let_def)

lemma answerTest_next:
  "testIdx s + 1 < length (testQueue s) \<Longrightarrow>
   screen (answerTest c s) = screen s \<and> testIdx (answerTest c s) = testIdx s + 1"
  by (simp add: answerTest_def sendCastMessage_def Let_def split: option.splits)

lemma answerTest_sent_last:
  "testIdx s + 1 \<ge> length (testQueue s) \<Longrightarrow>
   sent (answerTest c s) =
     (if isCasting s
      then sent s @ [ResultsMsg (score_correct (testScore s) + (if c then 1 else 0))
                       (length (testQueue s))]
      else sent s)"
  by (simp add: answerTest_def sendCastMessage_def Let_def)

lemma pressTestAnswer_ignored:
  "screen s \<noteq> Test \<or> activeDeck s = None \<Longrightarrow> pressTestAnswer c s = s"
  by (auto simp: pressTestAnswer_def)

lemma testRun_ignored:
  "screen s \<noteq> Test \<or> activeDeck s = None \<Longrightarrow> testRun bs s = s"
  by (induction bs) (simp_all add: pressTestAnswer_ignored)

lemma testRun_pass:
  assumes "activeDeck u \<noteq> None" "screen u = Test" "testIdx u < length (testQueue u)"
  shows "testQueue (testRun bs u) = testQueue u
       \<and> score_total (testScore (testRun bs u)) = score_total (testScore u)
       \<and> activeDeck (testRun bs u) = activeDeck u
       \<and> (testIdx u + length bs < length (testQueue u) \<longrightarrow>
            screen (testRun bs u) = Test
          \<and> testIdx (testRun bs u) = testIdx u + length bs
          \<and> score_correct (testScore (testRun bs u)) =
              score_correct (testScore u) + length (filter id bs))
       \<and> (length (testQueue u) \<le> testIdx u + length bs \<longrightarrow>
            screen (testRun bs u) = Results
          \<and> testIdx (testRun bs u) = length (testQueue u) - 1
          \<and> score_correct (testScore (testRun bs u)) =
              score_correct (testScore u)
                + length (filter id (take (length (testQueue u) - testIdx u) bs)))"
  using assms
proof (induction bs arbitrary: u)
  case Nil
  then show ?case by simp
next
  case (Cons b bs)
  let ?v = "pressTestAnswer b u"
  have v: "?v = answerTest b u" using Cons.prems(1,2) by (simp add: pressTestAnswer_def)
  show ?case
  proof (cases "testIdx u + 1 < length (testQueue u)")
    case True
    have st: "screen ?v = Test" "testIdx ?v = testIdx u + 1"
      using answerTest_next[OF True, of b] Cons.prems(2) v by simp_all
    have pre: "activeDeck ?v \<noteq> None" "screen ?v = Test" "testIdx ?v < length (testQueue ?v)"
      using Cons.prems(1) st True v by (simp_all add: answerTest_fields)
    have rem: "length (testQueue u) - testIdx u = Suc (length (testQueue u) - (testIdx u + 1))"
      using True by simp
    show ?thesis
      using Cons.IH[OF pre] st by (simp add: v answerTest_fields rem)
  next
    case False
    then have last: "testIdx u + 1 \<ge> length (testQueue u)" by simp
    have st: "screen ?v = Results" "testIdx ?v = testIdx u"
      using answerTest_last[OF last, of b] v by simp_all
    have run: "testRun (b # bs) u = answerTest b u"
      using st(1) testRun_ignored[of ?v bs] v by simp
    have idx: "testIdx (answerTest b u) = length (testQueue u) - 1"
      using last Cons.prems(3) st(2) v by simp
    have rem: "length (testQueue u) - testIdx u = Suc 0" using last Cons.prems(3) by simp
    have sc: "screen (answerTest b u) = Results" using st(1) v by simp
    have le: "length (testQueue u) \<le> testIdx u + length (b # bs)" using last by simp
    show ?thesis
      unfolding run rem using idx sc le by (simp add: answerTest_fields)
  qed
qed


lemma testRun_fixed:
  "testQueue (testRun bs u) = testQueue u
   \<and> score_total (testScore (testRun bs u)) = score_total (testScore u)
   \<and> activeDeck (testRun bs u) = activeDeck u"
  by (induction bs arbitrary: u) (simp_all add: pressTestAnswer_def answerTest_fields)

lemma currentTestCard_None:
  "activeDeck s = None \<or> testQueue s = [] \<Longrightarrow> currentTestCard s = None"
  by (auto simp: currentTestCard_def split: option.splits)

lemma currentCard_None:
  "activeDeck s = None \<or> queue s = [] \<Longrightarrow> currentCard s = None"
  by (auto simp: currentCard_def split: option.splits)

lemma chosen_facts:
  "activeDeck abc_chosen = Some abc_deck"
  "activeDeck empty_chosen = Some empty_deck"
  "length (cards abc_deck) = 3"
  "cards empty_deck = []"
  "screen empty_chosen = Mode"
  "queue empty_chosen = []"
  "sent empty_chosen = []"
  by (simp_all add: abc_chosen_def empty_chosen_def startModeChooser_def initial_state_def
      activeDeck_def abc_deck_def empty_deck_def js_def)

text \<open>
  Claim C1, as the code has it. Starting a test on a deck without cards gives the score
  \<open>correct = 0, total = 0\<close> and an empty queue, and shows the Test screen, not the
  Results: there is no current card and no card message is sent. The first answer then
  moves the session to the Results, the total still 0 and still without a card.
\<close>

theorem empty_deck_test:
  assumes "activeDeck s = Some d" "cards d = []"
  shows "testScore (startTest rnd s) = \<lparr> score_correct = 0, score_total = 0 \<rparr>
       \<and> testQueue (startTest rnd s) = []
       \<and> screen (startTest rnd s) = Test
       \<and> currentTestCard (startTest rnd s) = None
       \<and> sent (startTest rnd s) = sent s
       \<and> screen (pressTestAnswer c (startTest rnd s)) = Results
       \<and> score_total (testScore (pressTestAnswer c (startTest rnd s))) = 0
       \<and> currentTestCard (pressTestAnswer c (startTest rnd s)) = None
       \<and> (\<exists>k. sent (pressTestAnswer c (startTest rnd s)) =
                 sent s @ (if isCasting s then [ResultsMsg k 0] else []))"
proof -
  let ?s0 = "startTest rnd s"
  have q: "testQueue ?s0 = []" and i: "testIdx ?s0 = 0" and sc: "screen ?s0 = Test"
    and a: "activeDeck ?s0 = Some d" and m: "sent ?s0 = sent s"
    and t: "testScore ?s0 = \<lparr> score_correct = 0, score_total = 0 \<rparr>"
    using startTest_fields[OF assms(1), of rnd] assms(2)
    by (simp_all add: indices_def shuffleArray_Nil)
  have c0: "currentTestCard ?s0 = None" using q by (simp add: currentTestCard_None)
  have p: "pressTestAnswer c ?s0 = answerTest c ?s0" using sc a by (simp add: pressTestAnswer_def)
  have last: "testIdx ?s0 + 1 \<ge> length (testQueue ?s0)" using q by simp
  have r: "screen (answerTest c ?s0) = Results" using answerTest_last[OF last] by simp
  have tt: "score_total (testScore (answerTest c ?s0)) = 0" using t by (simp add: answerTest_fields)
  have c1: "currentTestCard (answerTest c ?s0) = None"
    using q by (simp add: currentTestCard_None answerTest_fields)
  have ic: "isCasting ?s0 = isCasting s"
    using assms by (simp add: startTest_def sendCastMessage_def Let_def)
  have sn: "sent (answerTest c ?s0) =
              sent s @ (if isCasting s then [ResultsMsg (0 + (if c then 1 else 0)) 0] else [])"
    using answerTest_sent_last[OF last, of c] q m ic t by simp
  then have ex: "\<exists>k. sent (answerTest c ?s0) =
                   sent s @ (if isCasting s then [ResultsMsg k 0] else [])" by blast
  show ?thesis using t q sc c0 m r tt c1 ex unfolding p by blast
qed

theorem empty_deck_test_witness:
  "activeDeck empty_chosen = Some empty_deck \<and> cards empty_deck = []
   \<and> testScore (startTest half empty_chosen) = \<lparr> score_correct = 0, score_total = 0 \<rparr>
   \<and> screen (startTest half empty_chosen) = Test
   \<and> currentTestCard (startTest half empty_chosen) = None
   \<and> sent (startTest half empty_chosen) = []
   \<and> screen (pressTestAnswer True (startTest half empty_chosen)) = Results"
  using empty_deck_test[OF chosen_facts(2,4), of half True] chosen_facts(2,4,7) by simp

theorem empty_deck_test_counterexample:
  "activeDeck empty_chosen = Some empty_deck \<and> length (cards empty_deck) = 0
   \<and> screen (startTest half empty_chosen) = Test
   \<and> screen (startTest half empty_chosen) \<noteq> Results"
  using startTest_fields(4)[OF chosen_facts(2), of half] chosen_facts(2,4) by simp

section \<open>Advancing a session that has nothing to advance\<close>

lemma started_empty_facts:
  "activeDeck (startTest half empty_chosen) = Some empty_deck"
  "testQueue (startTest half empty_chosen) = []"
  "screen (startTest half empty_chosen) = Test"
  "queue (startTest half empty_chosen) = []"
  "testScore (startTest half empty_chosen) = \<lparr> score_correct = 0, score_total = 0 \<rparr>"
  using startTest_fields[OF chosen_facts(2), of half] chosen_facts(2,4,6)
  by (simp_all add: indices_def shuffleArray_Nil startTest_def sendCastMessage_def Let_def)

text \<open>
  Claim C3, as the code has it. A practice advance with no active deck or with an empty
  queue changes nothing, and there is no current card then. A test answer cannot be given
  outside the Test screen or without an active deck, where the answer buttons are not
  rendered, and the state stays as it is; there is no current test card with no active deck
  or with an empty test queue. But \<^verbatim>\<open>answerTest\<close> has no guard of its own: on an empty
  test queue it moves the session to the Results screen, leaving the queue, the position and
  the total of the score unchanged.
\<close>

theorem precondition_violations:
  "(activeDeck s = None \<or> queue s = [] \<longrightarrow> nextPractice c s = s \<and> currentCard s = None)
   \<and> (activeDeck s = None \<or> screen s \<noteq> Test \<longrightarrow> pressTestAnswer c s = s)
   \<and> (activeDeck s = None \<or> testQueue s = [] \<longrightarrow> currentTestCard s = None)
   \<and> (testQueue s = [] \<longrightarrow>
         screen (answerTest c s) = Results
       \<and> testQueue (answerTest c s) = []
       \<and> testIdx (answerTest c s) = testIdx s
       \<and> score_total (testScore (answerTest c s)) = score_total (testScore s)
       \<and> currentTestCard (answerTest c s) = None)"
proof -
  have a: "nextPractice c s = s \<and> currentCard s = None" if "activeDeck s = None \<or> queue s = []"
    using that by (simp add: nextPractice_noop currentCard_None)
  have b: "pressTestAnswer c s = s" if "activeDeck s = None \<or> screen s \<noteq> Test"
    using that by (auto simp: pressTestAnswer_def)
  have d: "screen (answerTest c s) = Results \<and> testQueue (answerTest c s) = []
         \<and> testIdx (answerTest c s) = testIdx s
         \<and> score_total (testScore (answerTest c s)) = score_total (testScore s)
         \<and> currentTestCard (answerTest c s) = None" if e: "testQueue s = []"
  proof -
    have last: "testIdx s + 1 \<ge> length (testQueue s)" using e by simp
    show ?thesis using answerTest_last[OF last, of c] e
      by (simp add: answerTest_fields currentTestCard_None)
  qed
  show ?thesis using a b d currentTestCard_None[of s] by blast
qed

theorem precondition_violations_witness:
  "activeDeck (initial_state []) = None
   \<and> nextPractice True (initial_state []) = initial_state []
   \<and> currentCard (initial_state []) = None
   \<and> pressTestAnswer True (initial_state []) = initial_state []
   \<and> currentTestCard (initial_state []) = None
   \<and> testQueue (startTest half empty_chosen) = []
   \<and> queue (startTest half empty_chosen) = []
   \<and> nextPractice False (startTest half empty_chosen) = startTest half empty_chosen
   \<and> screen (answerTest False (startTest half empty_chosen)) = Results
   \<and> currentTestCard (answerTest False (startTest half empty_chosen)) = None"
proof -
  have n: "activeDeck (initial_state []) = None"
    by (simp add: activeDeck_def initial_state_def)
  show ?thesis
    using precondition_violations[of "initial_state []" True]
      precondition_violations[of "startTest half empty_chosen" False]
      n started_empty_facts(2,4)
    by simp
qed

theorem test_answer_counterexample:
  "activeDeck (startTest half empty_chosen) = Some empty_deck
   \<and> testQueue (startTest half empty_chosen) = []
   \<and> screen (startTest half empty_chosen) = Test
   \<and> screen (pressTestAnswer True (startTest half empty_chosen)) = Results
   \<and> testScore (startTest half empty_chosen) = \<lparr> score_correct = 0, score_total = 0 \<rparr>
   \<and> testScore (pressTestAnswer True (startTest half empty_chosen))
       = \<lparr> score_correct = 1, score_total = 0 \<rparr>
   \<and> pressTestAnswer True (startTest half empty_chosen) \<noteq> startTest half empty_chosen"
proof -
  let ?s = "startTest half empty_chosen"
  have p: "pressTestAnswer True ?s = answerTest True ?s"
    by (simp add: pressTestAnswer_def started_empty_facts)
  have last: "testIdx ?s + 1 \<ge> length (testQueue ?s)" by (simp add: started_empty_facts)
  have r: "screen (answerTest True ?s) = Results" using answerTest_last[OF last] by simp
  have sc: "testScore (answerTest True ?s) = \<lparr> score_correct = 1, score_total = 0 \<rparr>"
    by (simp add: answerTest_def sendCastMessage_def Let_def started_empty_facts)
  have ne: "answerTest True ?s \<noteq> ?s"
  proof
    assume "answerTest True ?s = ?s"
    then have "screen (answerTest True ?s) = screen ?s" by simp
    then show False using r by (simp add: started_empty_facts)
  qed
  show ?thesis using p r sc ne by (simp add: started_empty_facts)
qed

section \<open>One pass of a test\<close>

text \<open>
  Claim C7, as the code has it. A test on a deck of \<open>n\<close> cards starts on the Test screen
  at position 0 with a queue that is a permutation of \<open>0..n-1\<close>. After \<open>k < n\<close> answers
  the session is still on the Test screen at position \<open>k\<close>, showing the card of the
  \<open>k\<close>-th queue entry, and \<open>correct\<close> counts the answers that were correct. An answer
  adds one to \<open>correct\<close> iff it was correct; at a position before the last it adds one to
  the position, at the last position \<open>n - 1\<close> it leaves the position and moves the
  session to the Results screen. From then on an answer changes nothing. The queue never
  changes and has no duplicates, so no card index comes twice.
\<close>

theorem test_single_pass:
  assumes "activeDeck s = Some d" "\<forall>i. 0 \<le> rnd i \<and> rnd i < 1"
  shows "(let n = length (cards d); s0 = startTest rnd s in
     screen s0 = Test \<and> testIdx s0 = 0
     \<and> testScore s0 = \<lparr> score_correct = 0, score_total = n \<rparr>
     \<and> mset (testQueue s0) = mset (indices n) \<and> distinct (testQueue s0)
     \<and> (\<forall>bs. let u = testRun bs s0 in
          testQueue u = testQueue s0 \<and> score_total (testScore u) = n
        \<and> (length bs < n \<longrightarrow>
             screen u = Test \<and> testIdx u = length bs
           \<and> js_get (testQueue u) (testIdx u) = testQueue s0 ! length bs
           \<and> score_correct (testScore u) = length (filter id bs)
           \<and> (\<forall>c. let v = pressTestAnswer c u in
                score_correct (testScore v) = score_correct (testScore u) + (if c then 1 else 0)
              \<and> (if length bs + 1 < n then screen v = Test \<and> testIdx v = testIdx u + 1
                  else screen v = Results \<and> testIdx v = testIdx u)))
        \<and> (0 < n \<and> n \<le> length bs \<longrightarrow>
             screen u = Results \<and> testIdx u = n - 1
           \<and> score_correct (testScore u) = length (filter id (take n bs))
           \<and> (\<forall>c. pressTestAnswer c u = u))))"
proof -
  define n where "n = length (cards d)"
  define s0 where "s0 = startTest rnd s"
  have sh: "mset (shuffleArray rnd (indices n)) = mset (indices n)"
    "length (shuffleArray rnd (indices n)) = n"
    using shuffleArray_mset[OF assms(2), of "indices n"] by (simp_all add: indices_def)
  have q0: "testQueue s0 = shuffleArray rnd (indices n)" and i0: "testIdx s0 = 0"
    and sc0: "screen s0 = Test" and a0: "activeDeck s0 = Some d"
    and t0: "testScore s0 = \<lparr> score_correct = 0, score_total = n \<rparr>"
    using startTest_fields[OF assms(1), of rnd] sh(2) by (simp_all add: s0_def n_def)
  have m0: "mset (testQueue s0) = mset (indices n)" using q0 sh(1) by simp
  have l0: "length (testQueue s0) = n" using q0 sh(2) by simp
  have d0: "distinct (testQueue s0)"
    using m0 distinct_indices[of n] mset_eq_imp_distinct_iff by blast
  have run: "testQueue (testRun bs s0) = testQueue s0
           \<and> score_total (testScore (testRun bs s0)) = n
           \<and> (length bs < n \<longrightarrow>
                screen (testRun bs s0) = Test \<and> testIdx (testRun bs s0) = length bs
              \<and> js_get (testQueue (testRun bs s0)) (testIdx (testRun bs s0))
                  = testQueue s0 ! length bs
              \<and> score_correct (testScore (testRun bs s0)) = length (filter id bs)
              \<and> (\<forall>c. let v = pressTestAnswer c (testRun bs s0) in
                   score_correct (testScore v)
                     = score_correct (testScore (testRun bs s0)) + (if c then 1 else 0)
                 \<and> (if length bs + 1 < n
                     then screen v = Test \<and> testIdx v = testIdx (testRun bs s0) + 1
                     else screen v = Results \<and> testIdx v = testIdx (testRun bs s0))))
           \<and> (0 < n \<and> n \<le> length bs \<longrightarrow>
                screen (testRun bs s0) = Results \<and> testIdx (testRun bs s0) = n - 1
              \<and> score_correct (testScore (testRun bs s0)) = length (filter id (take n bs))
              \<and> (\<forall>c. pressTestAnswer c (testRun bs s0) = testRun bs s0))" for bs
  proof -
    let ?u = "testRun bs s0"
    have fx: "testQueue ?u = testQueue s0" "score_total (testScore ?u) = n"
      "activeDeck ?u = Some d"
      using testRun_fixed[of bs s0] t0 a0 by simp_all
    have early: "screen ?u = Test \<and> testIdx ?u = length bs
              \<and> js_get (testQueue ?u) (testIdx ?u) = testQueue s0 ! length bs
              \<and> score_correct (testScore ?u) = length (filter id bs)
              \<and> (\<forall>c. let v = pressTestAnswer c ?u in
                   score_correct (testScore v) = score_correct (testScore ?u) + (if c then 1 else 0)
                 \<and> (if length bs + 1 < n
                     then screen v = Test \<and> testIdx v = testIdx ?u + 1
                     else screen v = Results \<and> testIdx v = testIdx ?u))"
      if lt: "length bs < n"
    proof -
      have pre: "activeDeck s0 \<noteq> None" "screen s0 = Test" "testIdx s0 < length (testQueue s0)"
        using a0 sc0 i0 l0 lt by simp_all
      have b: "testIdx s0 + length bs < length (testQueue s0)" using i0 l0 lt by simp
      have st: "screen ?u = Test" "testIdx ?u = length bs"
        "score_correct (testScore ?u) = length (filter id bs)"
        using testRun_pass[OF pre, of bs] b i0 t0 by simp_all
      have g: "js_get (testQueue ?u) (testIdx ?u) = testQueue s0 ! length bs"
        using fx(1) st(2) l0 lt by (simp add: js_get_def)
      have pr: "pressTestAnswer c ?u = answerTest c ?u" for c
        using st(1) fx(3) by (simp add: pressTestAnswer_def)
      have step: "score_correct (testScore (answerTest c ?u))
                    = score_correct (testScore ?u) + (if c then 1 else 0)
                \<and> (if length bs + 1 < n
                    then screen (answerTest c ?u) = Test \<and> testIdx (answerTest c ?u) = testIdx ?u + 1
                    else screen (answerTest c ?u) = Results \<and> testIdx (answerTest c ?u) = testIdx ?u)"
        for c
      proof (cases "length bs + 1 < n")
        case True
        then have "testIdx ?u + 1 < length (testQueue ?u)" using st(2) fx(1) l0 by simp
        from answerTest_next[OF this, of c] show ?thesis
          using True st(1) by (simp add: answerTest_fields)
      next
        case False
        then have "testIdx ?u + 1 \<ge> length (testQueue ?u)" using st(2) fx(1) l0 by simp
        from answerTest_last[OF this, of c] show ?thesis
          using False by (simp add: answerTest_fields)
      qed
      show ?thesis using st g step by (simp add: pr Let_def)
    qed
    have late: "screen ?u = Results \<and> testIdx ?u = n - 1
              \<and> score_correct (testScore ?u) = length (filter id (take n bs))
              \<and> (\<forall>c. pressTestAnswer c ?u = ?u)"
      if ge: "0 < n \<and> n \<le> length bs"
    proof -
      have pre: "activeDeck s0 \<noteq> None" "screen s0 = Test" "testIdx s0 < length (testQueue s0)"
        using a0 sc0 i0 l0 ge by simp_all
      have b: "length (testQueue s0) \<le> testIdx s0 + length bs" using i0 l0 ge by simp
      have st: "screen ?u = Results" "testIdx ?u = n - 1"
        "score_correct (testScore ?u) = length (filter id (take n bs))"
        using testRun_pass[OF pre, of bs] b i0 t0 l0 by simp_all
      have "pressTestAnswer c ?u = ?u" for c
        using st(1) by (simp add: pressTestAnswer_ignored)
      then show ?thesis using st by simp
    qed
    show ?thesis using fx(1,2) early late by blast
  qed
  have "screen s0 = Test \<and> testIdx s0 = 0
     \<and> testScore s0 = \<lparr> score_correct = 0, score_total = n \<rparr>
     \<and> mset (testQueue s0) = mset (indices n) \<and> distinct (testQueue s0)"
    using sc0 i0 t0 m0 d0 by simp
  then show ?thesis using run unfolding Let_def n_def[symmetric] s0_def[symmetric] by blast
qed


lemma started_abc_facts:
  "activeDeck (startTest half abc_chosen) \<noteq> None"
  "screen (startTest half abc_chosen) = Test"
  "testIdx (startTest half abc_chosen) = 0"
  "length (testQueue (startTest half abc_chosen)) = 3"
  "score_correct (testScore (startTest half abc_chosen)) = 0"
  using startTest_fields[OF chosen_facts(1), of half]
    shuffleArray_mset[OF half_unit, of "indices 3"]
  by (simp_all add: chosen_facts(3) indices_def)

theorem test_single_pass_witness:
  "activeDeck abc_chosen = Some abc_deck \<and> (\<forall>i. 0 \<le> half i \<and> half i < 1)
   \<and> screen (startTest half abc_chosen) = Test
   \<and> testScore (startTest half abc_chosen) = \<lparr> score_correct = 0, score_total = 3 \<rparr>
   \<and> distinct (testQueue (startTest half abc_chosen))
   \<and> screen (testRun [True, False] (startTest half abc_chosen)) = Test
   \<and> testIdx (testRun [True, False] (startTest half abc_chosen)) = 2
   \<and> score_correct (testScore (testRun [True, False] (startTest half abc_chosen))) = 1
   \<and> screen (testRun [True, False, True] (startTest half abc_chosen)) = Results
   \<and> testIdx (testRun [True, False, True] (startTest half abc_chosen)) = 2
   \<and> score_correct (testScore (testRun [True, False, True] (startTest half abc_chosen))) = 2
   \<and> pressTestAnswer False (testRun [True, False, True] (startTest half abc_chosen))
       = testRun [True, False, True] (startTest half abc_chosen)"
proof -
  note t = test_single_pass[OF chosen_facts(1) half_unit, unfolded Let_def chosen_facts(3)]
  note r = t[THEN conjunct2, THEN conjunct2, THEN conjunct2, THEN conjunct2, THEN conjunct2,
      THEN spec]
  have a: "screen (startTest half abc_chosen) = Test
     \<and> testScore (startTest half abc_chosen) = \<lparr> score_correct = 0, score_total = 3 \<rparr>
     \<and> distinct (testQueue (startTest half abc_chosen))"
    using t by blast
  have b: "screen (testRun [True, False] (startTest half abc_chosen)) = Test
     \<and> testIdx (testRun [True, False] (startTest half abc_chosen)) = 2
     \<and> score_correct (testScore (testRun [True, False] (startTest half abc_chosen))) = 1"
    using r[of "[True, False]"] by simp
  have c: "screen (testRun [True, False, True] (startTest half abc_chosen)) = Results
     \<and> testIdx (testRun [True, False, True] (startTest half abc_chosen)) = 2
     \<and> score_correct (testScore (testRun [True, False, True] (startTest half abc_chosen))) = 2
     \<and> pressTestAnswer False (testRun [True, False, True] (startTest half abc_chosen))
         = testRun [True, False, True] (startTest half abc_chosen)"
    using r[of "[True, False, True]"] by simp
  show ?thesis using a b c chosen_facts(1) half_unit by blast
qed

theorem test_position_counterexample:
  "length (cards abc_deck) = 3
   \<and> screen (testRun [True, False] (startTest half abc_chosen)) = Test
   \<and> testIdx (testRun [True, False] (startTest half abc_chosen)) = 2
   \<and> testIdx (pressTestAnswer True (testRun [True, False] (startTest half abc_chosen))) = 2
   \<and> screen (pressTestAnswer True (testRun [True, False] (startTest half abc_chosen))) = Results
   \<and> testIdx (pressTestAnswer True (testRun [True, False] (startTest half abc_chosen)))
       \<noteq> testIdx (testRun [True, False] (startTest half abc_chosen)) + 1
   \<and> testIdx (pressTestAnswer True (testRun [True, False] (startTest half abc_chosen)))
       \<noteq> length (cards abc_deck)"
proof -
  let ?s0 = "startTest half abc_chosen"
  have pre: "activeDeck ?s0 \<noteq> None" "screen ?s0 = Test" "testIdx ?s0 < length (testQueue ?s0)"
    by (simp_all add: started_abc_facts)
  have e: "pressTestAnswer True (testRun [True, False] ?s0) = testRun [True, False, True] ?s0"
    by simp
  have two: "screen (testRun [True, False] ?s0) = Test \<and> testIdx (testRun [True, False] ?s0) = 2"
    using testRun_pass[OF pre, of "[True, False]"] by (simp add: started_abc_facts)
  have three: "screen (testRun [True, False, True] ?s0) = Results
             \<and> testIdx (testRun [True, False, True] ?s0) = 2"
    using testRun_pass[OF pre, of "[True, False, True]"] by (simp add: started_abc_facts)
  show ?thesis unfolding e using two three by (simp add: chosen_facts(3))
qed

section \<open>Saving a draft\<close>

lemma cleanCard_front: "front (cleanCard f c) = trim (front c)"
  by (simp add: cleanCard_def)

lemma cleanDraft_name:
  "name (cleanDraft uid d) = (if trim (name d) = [] then js ''Untitled Deck'' else trim (name d))"
  by (simp add: cleanDraft_def Let_def)

lemma placeholder_nonempty: "js ''Untitled Deck'' \<noteq> []"
  by (simp add: js_def)

lemma cleanDraft_cards:
  "cards (cleanDraft uid d) =
     map (\<lambda>(k, c). cleanCard (uid k) c)
       (filter (\<lambda>(k, c). trim (front c) \<noteq> []) (enumerate 0 (cards d)))"
  by (simp add: cleanDraft_def filter_map comp_def case_prod_unfold cleanCard_front)

lemma cleanDraft_fronts:
  "map front (cards (cleanDraft uid d)) = filter (\<lambda>f. f \<noteq> []) (map (\<lambda>c. trim (front c)) (cards d))"
proof -
  have "map front (cards (cleanDraft uid d)) =
          map (\<lambda>p. trim (front (snd p))) (filter (\<lambda>p. trim (front (snd p)) \<noteq> []) (enumerate 0 (cards d)))"
    by (simp add: cleanDraft_cards comp_def case_prod_unfold cleanCard_front)
  also have "\<dots> = filter (\<lambda>f. f \<noteq> []) (map (\<lambda>p. trim (front (snd p))) (enumerate 0 (cards d)))"
    by (simp add: filter_map comp_def)
  also have "map (\<lambda>p. trim (front (snd p))) (enumerate 0 (cards d))
               = map (\<lambda>c. trim (front c)) (cards d)"
  proof -
    have "map (\<lambda>p. trim (front (snd p))) (enumerate 0 (cards d))
            = map (\<lambda>c. trim (front c)) (map snd (enumerate 0 (cards d)))"
      by (simp only: map_map comp_def)
    then show ?thesis by (simp only: map_snd_enumerate)
  qed
  finally show ?thesis .
qed

lemma trim_cat: "trim (js ''cat'') = js ''cat''" "trim (js '''') = []"
  by (simp_all add: trim_def js_def isWhiteSpace_def)

lemma cat_nonempty: "js ''cat'' \<noteq> []"
  by (simp add: js_def)

lemma trim_padded: "trim (js ''  cat '') = js ''cat''"
  by (simp add: trim_def js_def isWhiteSpace_def)


lemma cleanDraft_ids:
  assumes "\<forall>c \<in> set (cards d). card_id c \<noteq> []"
  shows "map card_id (cards (cleanDraft uid d))
           = map card_id (filter (\<lambda>c. trim (front c) \<noteq> []) (cards d))"
proof -
  have "map card_id (cards (cleanDraft uid d)) =
          map (\<lambda>p. card_id (snd p))
            (filter (\<lambda>p. trim (front (snd p)) \<noteq> []) (enumerate 0 (cards d)))"
    using assms
    by (auto simp: cleanDraft_cards cleanCard_def case_prod_unfold in_set_enumerate_eq)
  also have "\<dots> = map card_id (map snd
            (filter (\<lambda>p. trim (front (snd p)) \<noteq> []) (enumerate 0 (cards d))))"
    by (simp only: map_map comp_def)
  also have "map snd (filter (\<lambda>p. trim (front (snd p)) \<noteq> []) (enumerate 0 (cards d)))
               = filter (\<lambda>c. trim (front c) \<noteq> []) (map snd (enumerate 0 (cards d)))"
    by (simp only: filter_map comp_def)
  finally show ?thesis by (simp only: map_snd_enumerate)
qed

lemma saveDraft_decks:
  assumes "draftDeck s = Some d"
  shows "isNewDeck s \<Longrightarrow>
           \<exists>i. decks (saveDraft uid created s) = decks s @ [(cleanDraft uid d)\<lparr> deck_id := i \<rparr>]"
    and "\<not> isNewDeck s \<Longrightarrow>
           decks (saveDraft uid created s) =
             map (\<lambda>x. if deck_id x = deck_id d then cleanDraft uid d else x) (decks s)"
proof -
  have id: "deck_id (cleanDraft uid d) = deck_id d" by (simp add: cleanDraft_def)
  show "\<not> isNewDeck s \<Longrightarrow>
           decks (saveDraft uid created s) =
             map (\<lambda>x. if deck_id x = deck_id d then cleanDraft uid d else x) (decks s)"
    using assms by (simp add: saveDraft_def Let_def id)
  assume n: "isNewDeck s"
  show "\<exists>i. decks (saveDraft uid created s) = decks s @ [(cleanDraft uid d)\<lparr> deck_id := i \<rparr>]"
  proof (cases "\<exists>i. created = Some i \<and> i \<noteq> [] \<and> i \<noteq> deck_id (cleanDraft uid d)")
    case True
    then obtain i where "created = Some i" "i \<noteq> []" "i \<noteq> deck_id (cleanDraft uid d)" by blast
    then have "decks (saveDraft uid created s) = decks s @ [(cleanDraft uid d)\<lparr> deck_id := i \<rparr>]"
      using assms n by (simp add: saveDraft_def Let_def)
    then show ?thesis ..
  next
    case False
    then have "decks (saveDraft uid created s) = decks s @ [cleanDraft uid d]"
      using assms n by (auto simp: saveDraft_def Let_def split: option.splits)
    then have "decks (saveDraft uid created s)
                 = decks s @ [(cleanDraft uid d)\<lparr> deck_id := deck_id (cleanDraft uid d) \<rparr>]"
      by simp
    then show ?thesis ..
  qed
qed

text \<open>
  Claim C8. The deck that saving a draft produces has a non-empty name, the trimmed name
  of the draft or the placeholder when that is empty, and its cards are the draft's cards
  whose trimmed front is not empty, in their order, with trimmed fields (and their own ids
  when these are not empty): every saved front is non-empty. A new deck is appended to the
  decks, possibly under the id the store gave it; otherwise it replaces the deck of its id.
  A draft with the cards \<open>cat\<close> and a blank one saves exactly one card, \<open>cat\<close>.
\<close>

theorem saved_deck_clean:
  "name (cleanDraft uid d) \<noteq> []
   \<and> name (cleanDraft uid d) = (if trim (name d) = [] then js ''Untitled Deck'' else trim (name d))
   \<and> cards (cleanDraft uid d) =
       map (\<lambda>(k, c). cleanCard (uid k) c)
         (filter (\<lambda>(k, c). trim (front c) \<noteq> []) (enumerate 0 (cards d)))
   \<and> map front (cards (cleanDraft uid d)) =
       filter (\<lambda>f. f \<noteq> []) (map (\<lambda>c. trim (front c)) (cards d))
   \<and> (\<forall>c \<in> set (cards (cleanDraft uid d)). front c \<noteq> [])
   \<and> ((\<forall>c \<in> set (cards d). card_id c \<noteq> []) \<longrightarrow>
        map card_id (cards (cleanDraft uid d))
          = map card_id (filter (\<lambda>c. trim (front c) \<noteq> []) (cards d)))
   \<and> (draftDeck s = Some d \<longrightarrow>
        (isNewDeck s \<longrightarrow>
           (\<exists>i. decks (saveDraft uid created s)
                  = decks s @ [(cleanDraft uid d)\<lparr> deck_id := i \<rparr>]))
      \<and> (\<not> isNewDeck s \<longrightarrow>
           decks (saveDraft uid created s) =
             map (\<lambda>x. if deck_id x = deck_id d then cleanDraft uid d else x) (decks s)))
   \<and> (\<forall>c1 c2. front c1 = js ''cat'' \<and> front c2 = js '''' \<longrightarrow>
        map front (cards (cleanDraft uid (d\<lparr> cards := [c1, c2] \<rparr>))) = [js ''cat''])"
proof -
  have n: "name (cleanDraft uid d) \<noteq> []"
    using placeholder_nonempty by (simp add: cleanDraft_name)
  have f: "\<forall>c \<in> set (cards (cleanDraft uid d)). front c \<noteq> []"
    by (simp add: cleanDraft_def)
  have ex: "map front (cards (cleanDraft uid (d\<lparr> cards := [c1, c2] \<rparr>))) = [js ''cat'']"
    if "front c1 = js ''cat'' \<and> front c2 = js ''''" for c1 c2
    using that cat_nonempty by (simp add: cleanDraft_fronts trim_cat)
  show ?thesis
    using n f ex cleanDraft_name[of uid d] cleanDraft_cards[of uid d] cleanDraft_fronts[of uid d]
      cleanDraft_ids[of d uid] saveDraft_decks[of s d uid created]
    by blast
qed

lemma cat_draft_facts:
  "draftDeck editing_cat = Some cat_draft"
  "isNewDeck editing_cat"
  "decks editing_cat = []"
  "front cat_card = js ''cat'' \<and> front blank_card = js ''''"
  "cat_draft\<lparr> cards := [cat_card, blank_card] \<rparr> = cat_draft"
  by (simp_all add: editing_cat_def initial_state_def cat_draft_def cat_card_def blank_card_def)

theorem saved_deck_clean_witness:
  "draftDeck editing_cat = Some cat_draft \<and> isNewDeck editing_cat
   \<and> trim (name cat_draft) = []
   \<and> name (cleanDraft no_uid cat_draft) = js ''Untitled Deck''
   \<and> map front (cards (cleanDraft no_uid cat_draft)) = [js ''cat'']
   \<and> length (cards (cleanDraft no_uid cat_draft)) = 1
   \<and> (\<exists>i. decks (saveDraft no_uid None editing_cat) = [(cleanDraft no_uid cat_draft)\<lparr> deck_id := i \<rparr>])"
proof -
  note t = saved_deck_clean[of no_uid cat_draft editing_cat None]
  have tn: "trim (name cat_draft) = []"
    by (simp add: cat_draft_def trim_def js_def isWhiteSpace_def)
  have nm: "name (cleanDraft no_uid cat_draft) = js ''Untitled Deck''" using t tn by simp
  have "map front (cards (cleanDraft no_uid (cat_draft\<lparr> cards := [cat_card, blank_card] \<rparr>)))
          = [js ''cat'']"
    using t cat_draft_facts(4) by blast
  then have fr: "map front (cards (cleanDraft no_uid cat_draft)) = [js ''cat'']"
    by (simp only: cat_draft_facts(5))
  then have "length (map front (cards (cleanDraft no_uid cat_draft))) = 1" by simp
  then have ln: "length (cards (cleanDraft no_uid cat_draft)) = 1" by simp
  have dk: "\<exists>i. decks (saveDraft no_uid None editing_cat)
                 = [(cleanDraft no_uid cat_draft)\<lparr> deck_id := i \<rparr>]"
    using t cat_draft_facts(1,2,3) by simp
  show ?thesis using cat_draft_facts(1,2) tn nm fr ln dk by blast
qed

end
